theory Spec2Isabelle
  imports Main
begin

section \<open>Python values, formatted text and exceptions\<close>

text \<open>
  The values the program handles: what \<^verbatim>\<open>response.json()\<close> yields (JSON
  decoded into Python objects) and the integers and strings the program itself
  builds. A dict is an association list in insertion order, read with
  \<open>map_of\<close>. Floats do not occur in what the program reads and are left out.
\<close>

datatype pyval =
    PNone
  | PBool bool
  | PInt int
  | PStr string
  | PList "pyval list"
  | PDict "(string \<times> pyval) list"

text \<open>
  An f-string is kept as the list of its parts, in order: \<open>Lit\<close> for the
  literal text, \<open>Val\<close> for an interpolated value, \<open>Exc\<close> for an interpolated
  exception. \<^verbatim>\<open>f"Cloning {repo}..."\<close> is
  \<open>[Lit ''Cloning '', Val repo, Lit ''...'']\<close>. The rendering of a value by
  \<^verbatim>\<open>str()\<close> is not modelled: no branch of the program depends on it.

  Exceptions are values. \<open>Raised\<close> stands for whatever a library call reports
  on its own account (a network error of \<^verbatim>\<open>requests.get\<close>, an
  \<^verbatim>\<open>OSError\<close> of \<^verbatim>\<open>os.makedirs\<close> or \<^verbatim>\<open>open\<close>), with the class name.
\<close>

datatype piece = Lit string | Val pyval | Exc exn
and exn =
    RuntimeError "piece list"
  | FileExistsError "piece list"
  | FileNotFoundError "piece list"
  | CalledProcessError int string
  | KeyError string
  | TypeError
  | AttributeError pyval string
  | ValueError
  | JSONDecodeError
  | Raised string

type_synonym headers = "(string \<times> string) list"

text \<open>
  What the program reads of a \<^verbatim>\<open>requests.Response\<close>: \<open>json_body\<close> is the result
  of \<^verbatim>\<open>response.json()\<close> (\<open>None\<close> when the body is not JSON and the call raises),
  \<open>links\<close> maps a link relation of the Link header to its url
  (\<^verbatim>\<open>response.links[rel]['url']\<close>). \<open>status_code\<close> is part of every response;
  the program never reads it.
\<close>

record response =
  status_code :: nat
  json_body :: "pyval option"
  links :: "string \<rightharpoonup> string"

section \<open>The world: a trace of effects, and the environment's answers\<close>

datatype event =
    Get string headers "exn + response"   \<comment> \<open>\<^verbatim>\<open>requests.get(url, headers=headers)\<close> and its outcome\<close>
  | Run string int                        \<comment> \<open>\<^verbatim>\<open>subprocess.run(command, shell=True)\<close> and its return code\<close>
  | Sleep nat                             \<comment> \<open>\<^verbatim>\<open>time.sleep(seconds)\<close>\<close>
  | Print "piece list"                    \<comment> \<open>\<^verbatim>\<open>print(f"...")\<close>\<close>
  | Makedirs string                       \<comment> \<open>\<^verbatim>\<open>os.makedirs(directory, exist_ok=True)\<close>\<close>

type_synonym world = "event list"

text \<open>
  The collaborators the program calls but does not implement, each a function of
  the history so far: the host (\<^verbatim>\<open>os.name\<close>, \<^verbatim>\<open>os.path.join\<close>, the value of
  \<^verbatim>\<open>GH_TOKEN\<close> at import), the file system, the listing endpoint and the shell
  that runs \<^verbatim>\<open>git clone\<close>.
\<close>

record env =
  os_name :: string
  path_join :: "string \<Rightarrow> string \<Rightarrow> string"
  default_token :: "string option"
  path_exists :: "world \<Rightarrow> string \<Rightarrow> bool"
  makedirs_error :: "world \<Rightarrow> string \<Rightarrow> exn option"
  read_first_line :: "world \<Rightarrow> string \<Rightarrow> exn + string"
  http_get :: "world \<Rightarrow> string \<Rightarrow> headers \<Rightarrow> exn + response"
  shell :: "world \<Rightarrow> string \<Rightarrow> int"

section \<open>Clone Executor: \<^verbatim>\<open>run_git_clone\<close>\<close>

text \<open>
  The command line of one attempt (lines 76 to 78 of the source).
\<close>

definition clone_command :: "env \<Rightarrow> string \<Rightarrow> string \<Rightarrow> string \<Rightarrow> string" where
  "clone_command E repo directory repo_name =
     (let command = ''git clone '' @ repo @ '' '' @ path_join E directory repo_name @ ''/'';
          null_device = (if os_name E = ''nt'' then ''nul'' else ''/dev/null'')
      in command @ '' > '' @ null_device @ '' 2>&1'')"

text \<open>
  The retry loop. \<^verbatim>\<open>subprocess.run(..., check=True)\<close> raises
  \<^verbatim>\<open>CalledProcessError\<close> exactly when the return code is not zero, so the test
  \<^verbatim>\<open>result.returncode == 0\<close> holds whenever it is reached. The loop counts
  \<open>max_retries\<close> down and the final \<^verbatim>\<open>raise\<close> formats the counter as it stands
  then.
\<close>

function run_git_clone ::
  "env \<Rightarrow> string \<Rightarrow> string \<Rightarrow> string \<Rightarrow> int \<Rightarrow> world \<Rightarrow> (exn + unit) \<times> world" where
  "run_git_clone E repo directory repo_name max_retries w =
     (if max_retries > 0 then
        (let command = clone_command E repo directory repo_name;
             returncode = shell E w command;
             w1 = w @ [Run command returncode]
         in if returncode = 0 then (Inr (), w1)
            else run_git_clone E repo directory repo_name (max_retries - 1)
                   (w1 @ [Print [Lit ''Error cloning '', Val (PStr repo_name), Lit '': '',
                                 Exc (CalledProcessError returncode command)],
                          Sleep 5]))
      else (Inl (RuntimeError [Lit ''Failed to clone '', Val (PStr repo_name), Lit '' after '',
                               Val (PInt max_retries), Lit '' retries'']), w))"
  by pat_completeness auto
termination
  by (relation "measure (\<lambda>(E, repo, directory, repo_name, max_retries, w). nat max_retries)") auto

declare run_git_clone.simps [simp del]

section \<open>Deriving the local name: \<^verbatim>\<open>clone_repo\<close>\<close>

text \<open>
  \<^verbatim>\<open>str.split(sep)\<close> for a one-character separator: the segments between the
  separators, never an empty list. \<^verbatim>\<open>str.replace(old, new)\<close>: every occurrence
  of \<open>old\<close>, found from the left and not overlapping, becomes \<open>new\<close>.
\<close>

fun py_split :: "char \<Rightarrow> string \<Rightarrow> string list" where
  "py_split sep [] = [[]]"
| "py_split sep (c # cs) =
     (if c = sep then [] # py_split sep cs
      else (case py_split sep cs of [] \<Rightarrow> [[c]] | s # ss \<Rightarrow> (c # s) # ss))"

function py_replace :: "string \<Rightarrow> string \<Rightarrow> string \<Rightarrow> string" where
  "py_replace old new s =
     (if old = [] then new @ concat (map (\<lambda>c. c # new) s)
      else if s = [] then []
      else if take (length old) s = old then new @ py_replace old new (drop (length old) s)
      else hd s # py_replace old new (tl s))"
  by pat_completeness auto
termination
  by (relation "measure (\<lambda>(old, new, s). length s)") auto

declare py_replace.simps [simp del]

text \<open>
  Lines 104 to 106: \<^verbatim>\<open>repo.split("/")[-1].replace(".git", "")\<close>. The index
  \<open>-1\<close> is the last segment; the list is never empty, so it cannot raise.
\<close>

definition derive_repo_name :: "string \<Rightarrow> string" where
  "derive_repo_name repo = py_replace ''.git'' [] (last (py_split CHR ''/'' repo))"

text \<open>
  \<open>clone_repo\<close> is annotated for a \<^verbatim>\<open>str\<close>; what it receives comes out of the
  listing's JSON. On anything but a string the \<^verbatim>\<open>print\<close> still happens and
  \<^verbatim>\<open>repo.split\<close> raises \<^verbatim>\<open>AttributeError\<close>. \<open>run_git_clone\<close> is called with
  its default budget, 5.
\<close>

fun clone_repo :: "env \<Rightarrow> pyval \<Rightarrow> string \<Rightarrow> world \<Rightarrow> (exn + string) \<times> world" where
  "clone_repo E (PStr repo) directory w =
     (let w1 = w @ [Print [Lit ''Cloning '', Val (PStr repo), Lit ''...'']];
          repo_name = derive_repo_name repo
      in case run_git_clone E repo directory repo_name 5 w1 of
           (Inl e, w2) \<Rightarrow> (Inl e, w2)
         | (Inr u, w2) \<Rightarrow> (Inr repo_name, w2))"
| "clone_repo E repo directory w =
     (Inl (AttributeError repo ''split''), w @ [Print [Lit ''Cloning '', Val repo, Lit ''...'']])"

section \<open>Clone Orchestrator: \<^verbatim>\<open>clone_repos\<close>\<close>

text \<open>
  Threads are not modelled. The batch is taken under the schedule in which each
  task runs to its end when it is submitted and the futures complete in
  submission order; a future is the captured outcome of its task, and
  \<open>future_to_repo\<close> is the list of the futures with their urls. The size of the
  pool enters only where \<^verbatim>\<open>ThreadPoolExecutor\<close> rejects a size below one.
  \<open>show_progress\<close> only switches the progress bar, which is not part of the trace.
\<close>

fun submit_all ::
  "env \<Rightarrow> pyval list \<Rightarrow> string \<Rightarrow> world \<Rightarrow> ((exn + string) \<times> pyval) list \<times> world" where
  "submit_all E [] directory w = ([], w)"
| "submit_all E (repo # repos) directory w =
     (case clone_repo E repo directory w of
        (future, w1) \<Rightarrow>
          (case submit_all E repos directory (w1 @ [Sleep 1]) of
             (future_to_repo, w2) \<Rightarrow> ((future, repo) # future_to_repo, w2)))"

text \<open>
  The second loop: \<^verbatim>\<open>future.result()\<close> re-raises what the task raised, and
  \<^verbatim>\<open>except Exception\<close> prints it and goes on.
\<close>

fun report :: "((exn + string) \<times> pyval) list \<Rightarrow> world \<Rightarrow> world" where
  "report [] w = w"
| "report ((Inr name, repo) # future_to_repo) w = report future_to_repo w"
| "report ((Inl exc, repo) # future_to_repo) w =
     report future_to_repo (w @ [Print [Val repo, Lit '' generated an exception: '', Exc exc]])"

definition clone_repos ::
  "env \<Rightarrow> pyval list \<Rightarrow> string \<Rightarrow> bool \<Rightarrow> int \<Rightarrow> world \<Rightarrow> (exn + unit) \<times> world" where
  "clone_repos E repos directory show_progress n_threads w =
     (if path_exists E w directory then
        (Inl (FileExistsError [Lit ''Directory '', Val (PStr directory), Lit '' already exists.'']), w)
      else
        (case makedirs_error E w directory of
           Some e \<Rightarrow> (Inl e, w)
         | None \<Rightarrow>
            (let w1 = w @ [Makedirs directory] in
             if n_threads \<le> 0 then (Inl ValueError, w1)
             else (case submit_all E repos directory w1 of
                     (future_to_repo, w2) \<Rightarrow> (Inr (), report future_to_repo w2)))))"

section \<open>Repository Lister: \<^verbatim>\<open>get_public_repos\<close>\<close>

text \<open>
  Python's truth value, iteration and \<^verbatim>\<open>x[key]\<close> with a string key, on the
  values above.
\<close>

fun truthy :: "pyval \<Rightarrow> bool" where
  "truthy PNone = False"
| "truthy (PBool b) = b"
| "truthy (PInt i) = (i \<noteq> 0)"
| "truthy (PStr s) = (s \<noteq> [])"
| "truthy (PList xs) = (xs \<noteq> [])"
| "truthy (PDict kvs) = (kvs \<noteq> [])"

fun py_iter :: "pyval \<Rightarrow> exn + pyval list" where
  "py_iter (PList xs) = Inr xs"
| "py_iter (PDict kvs) = Inr (map (\<lambda>kv. PStr (fst kv)) kvs)"
| "py_iter (PStr s) = Inr (map (\<lambda>c. PStr [c]) s)"
| "py_iter v = Inl TypeError"

fun py_getitem :: "pyval \<Rightarrow> string \<Rightarrow> exn + pyval" where
  "py_getitem (PDict kvs) k = (case map_of kvs k of None \<Rightarrow> Inl (KeyError k) | Some v \<Rightarrow> Inr v)"
| "py_getitem v k = Inl TypeError"

text \<open>
  The two comprehensions: \<^verbatim>\<open>[repo for repo in xs if not repo[key]]\<close> and
  \<^verbatim>\<open>[repo[key] for repo in xs]\<close>, left to right, stopping at the first raise.
\<close>

fun select_not :: "string \<Rightarrow> pyval list \<Rightarrow> exn + pyval list" where
  "select_not k [] = Inr []"
| "select_not k (repo # xs) =
     (case py_getitem repo k of
        Inl e \<Rightarrow> Inl e
      | Inr v \<Rightarrow>
         (case select_not k xs of
            Inl e \<Rightarrow> Inl e
          | Inr ys \<Rightarrow> Inr (if truthy v then ys else repo # ys)))"

fun collect :: "string \<Rightarrow> pyval list \<Rightarrow> exn + pyval list" where
  "collect k [] = Inr []"
| "collect k (repo # xs) =
     (case py_getitem repo k of
        Inl e \<Rightarrow> Inl e
      | Inr v \<Rightarrow> (case collect k xs of Inl e \<Rightarrow> Inl e | Inr ys \<Rightarrow> Inr (v # ys)))"

text \<open>Lines 48 to 52: from one response to the clone urls of its page.\<close>

definition page_repo_urls :: "string option \<Rightarrow> response \<Rightarrow> exn + pyval list" where
  "page_repo_urls pat_token response =
     (case json_body response of
        None \<Rightarrow> Inl JSONDecodeError
      | Some response_json \<Rightarrow>
         (case py_iter response_json of
            Inl e \<Rightarrow> Inl e
          | Inr items \<Rightarrow>
             (case select_not ''fork'' items of
                Inl e \<Rightarrow> Inl e
              | Inr repos \<Rightarrow>
                 (case (if pat_token = None then select_not ''private'' repos else Inr repos) of
                    Inl e \<Rightarrow> Inl e
                  | Inr repos' \<Rightarrow> collect ''clone_url'' repos'))))"

text \<open>Lines 41 to 45: the headers and the url of the request.\<close>

definition auth_headers :: "string option \<Rightarrow> headers" where
  "auth_headers pat_token =
     (case pat_token of
        None \<Rightarrow> []
      | Some tk \<Rightarrow> if tk = [] then [] else [(''Authorization'', ''token '' @ tk)])"

definition request_url :: "string \<Rightarrow> string option \<Rightarrow> string" where
  "request_url username page_url =
     (case page_url of
        None \<Rightarrow> ''https://api.github.com/users/'' @ username @ ''/repos''
      | Some u \<Rightarrow> u)"

text \<open>
  The function calls itself once per page. \<open>depth\<close> is the number of nested
  calls the interpreter's stack still allows; a walk that needs more does not
  return, which is the result \<open>None\<close>.
\<close>

fun get_public_repos ::
  "nat \<Rightarrow> env \<Rightarrow> string \<Rightarrow> string option \<Rightarrow> string option \<Rightarrow> world
     \<Rightarrow> ((exn + pyval list) \<times> world) option" where
  "get_public_repos 0 E username pat_token page_url w = None"
| "get_public_repos (Suc depth) E username pat_token page_url w =
     (let headers = auth_headers pat_token;
          url = request_url username page_url
      in case http_get E w url headers of
           Inl e \<Rightarrow> Some (Inl e, w @ [Get url headers (Inl e)])
         | Inr response \<Rightarrow>
            (let w1 = w @ [Get url headers (Inr response)] in
             case page_repo_urls pat_token response of
               Inl e \<Rightarrow> Some (Inl e, w1)
             | Inr repo_urls \<Rightarrow>
                (case links response ''next'' of
                   None \<Rightarrow> Some (Inr repo_urls, w1)
                 | Some next_page_url \<Rightarrow>
                    (case get_public_repos depth E username pat_token (Some next_page_url) w1 of
                       None \<Rightarrow> None
                     | Some (Inl e, w2) \<Rightarrow> Some (Inl e, w2)
                     | Some (Inr rest, w2) \<Rightarrow> Some (Inr (repo_urls @ rest), w2)))))"

section \<open>Entry point: \<^verbatim>\<open>main\<close>\<close>

text \<open>
  Lines 173 to 180. \<^verbatim>\<open>if token:\<close> skips \<^verbatim>\<open>None\<close> and the empty string;
  \<open>read_first_line\<close> is \<^verbatim>\<open>open(token).readline().strip()\<close>.
\<close>

definition load_token :: "env \<Rightarrow> string option \<Rightarrow> world \<Rightarrow> exn + string option" where
  "load_token E token w =
     (case token of
        None \<Rightarrow> Inr None
      | Some tk \<Rightarrow>
         if tk = [] then Inr (Some tk)
         else if tk = ''#ENV'' then Inr (default_token E)
         else if path_exists E w tk then
           (case read_first_line E w tk of Inl e \<Rightarrow> Inl e | Inr line \<Rightarrow> Inr (Some line))
         else Inl (FileNotFoundError [Lit ''Could not find file '', Val (PStr tk), Lit ''.'']))"

definition main ::
  "nat \<Rightarrow> env \<Rightarrow> string \<Rightarrow> string \<Rightarrow> bool \<Rightarrow> int \<Rightarrow> string option \<Rightarrow> world
     \<Rightarrow> ((exn + unit) \<times> world) option" where
  "main depth E username directory show_progress n_threads token w =
     (case load_token E token w of
        Inl e \<Rightarrow> Some (Inl e, w)
      | Inr token' \<Rightarrow>
         (case get_public_repos depth E username token' None w of
            None \<Rightarrow> None
          | Some (Inl e, w1) \<Rightarrow> Some (Inl e, w1)
          | Some (Inr repos, w1) \<Rightarrow>
              Some (clone_repos E repos directory show_progress n_threads w1)))"

section \<open>Observations on traces, and a concrete host\<close>

text \<open>The number of clone attempts a trace holds: its \<open>Run\<close> events.\<close>

definition clone_attempts :: "world \<Rightarrow> nat" where
  "clone_attempts w = length (filter (\<lambda>ev. case ev of Run c r \<Rightarrow> True | _ \<Rightarrow> False) w)"

text \<open>
  A POSIX host for the concrete runs below: \<^verbatim>\<open>posixpath.join\<close> on two
  components, no \<^verbatim>\<open>GH_TOKEN\<close>, a file system given by the set of paths that
  exist, and the shell and the endpoint given as functions.
\<close>

definition posix_join :: "string \<Rightarrow> string \<Rightarrow> string" where
  "posix_join a b =
     (if take 1 b = ''/'' then b
      else if a = [] \<or> last a = CHR ''/'' then a @ b
      else a @ ''/'' @ b)"

definition posix_env ::
  "(world \<Rightarrow> string \<Rightarrow> int) \<Rightarrow> (world \<Rightarrow> string \<Rightarrow> headers \<Rightarrow> exn + response)
     \<Rightarrow> (string \<Rightarrow> bool) \<Rightarrow> env" where
  "posix_env sh http ex =
     \<lparr> os_name = ''posix'', path_join = posix_join, default_token = None,
       path_exists = (\<lambda>w p. ex p), makedirs_error = (\<lambda>w p. None),
       read_first_line = (\<lambda>w p. Inl (Raised ''OSError'')),
       http_get = http, shell = sh \<rparr>"

text \<open>A host with no network where every \<^verbatim>\<open>git clone\<close> exits with 128.\<close>

definition failing_host :: env where
  "failing_host =
     posix_env (\<lambda>w c. 128) (\<lambda>w u h. Inl (Raised ''ConnectionError'')) (\<lambda>p. False)"

text \<open>A host where the clone of \<^verbatim>\<open>o/b\<close> always exits with 128 and every other clone succeeds.\<close>

definition one_bad_host :: env where
  "one_bad_host =
     posix_env
       (\<lambda>w c. if c = ''git clone https://github.com/o/b.git ./repos/b/ > /dev/null 2>&1''
               then 128 else 0)
       (\<lambda>w u h. Inl (Raised ''ConnectionError'')) (\<lambda>p. False)"

text \<open>
  What a run of the Lister was given: the items of every page body that arrived
  and could be iterated, in the order of arrival.
\<close>

fun page_items :: "event \<Rightarrow> pyval list" where
  "page_items (Get url hs (Inr response)) =
     (case json_body response of
        None \<Rightarrow> []
      | Some response_json \<Rightarrow> (case py_iter response_json of Inl e \<Rightarrow> [] | Inr items \<Rightarrow> items))"
| "page_items ev = []"

definition received :: "world \<Rightarrow> pyval list" where
  "received w = concat (map page_items w)"

text \<open>
  The truth value of a flag of a repository object as the Lister reads it, and
  the test the two filters of lines 49 to 51 apply together.
\<close>

definition flag :: "string \<Rightarrow> pyval \<Rightarrow> bool" where
  "flag k repo = (case py_getitem repo k of Inl e \<Rightarrow> False | Inr v \<Rightarrow> truthy v)"

definition kept :: "string option \<Rightarrow> pyval \<Rightarrow> bool" where
  "kept pat_token repo =
     (if flag ''fork'' repo then False
      else if pat_token = None then \<not> flag ''private'' repo
      else True)"

text \<open>
  The account of the spec's scenario: \<open>A\<close> is a fork, \<open>B\<close> is neither fork nor
  private, \<open>C\<close> is private; one page, with no link to a next one.
\<close>

definition repo_object :: "string \<Rightarrow> bool \<Rightarrow> bool \<Rightarrow> pyval" where
  "repo_object url fork private =
     PDict [(''clone_url'', PStr url), (''fork'', PBool fork), (''private'', PBool private)]"

definition acme_page :: response where
  "acme_page =
     \<lparr> status_code = 200,
       json_body = Some (PList [repo_object ''https://github.com/acme/A.git'' True False,
                                repo_object ''https://github.com/acme/B.git'' False False,
                                repo_object ''https://github.com/acme/C.git'' False True]),
       links = Map.empty \<rparr>"

definition acme_host :: env where
  "acme_host = posix_env (\<lambda>w c. 0) (\<lambda>w u h. Inr acme_page) (\<lambda>p. False)"

text \<open>
  The listing as the spec words it. A \<open>descriptor\<close> is the spec's
  RepositoryDescriptor (the name, derived from the url, is left to the
  orchestrator); a response is a page of descriptors when its body is a JSON
  array of objects that carry the three fields with these values;
  \<open>spec_listed\<close> is the spec's filter: forks out always, private repositories
  out when no credential is given.
\<close>

record descriptor =
  cloneURL :: string
  isFork :: bool
  isPrivate :: bool

definition describes :: "pyval \<Rightarrow> descriptor \<Rightarrow> bool" where
  "describes repo d =
     (py_getitem repo ''clone_url'' = Inr (PStr (cloneURL d))
      \<and> py_getitem repo ''fork'' = Inr (PBool (isFork d))
      \<and> py_getitem repo ''private'' = Inr (PBool (isPrivate d)))"

definition page_of :: "response \<Rightarrow> descriptor list \<Rightarrow> bool" where
  "page_of response ds =
     (case json_body response of
        Some (PList items) \<Rightarrow> list_all2 describes items ds
      | _ \<Rightarrow> False)"

definition spec_listed :: "string option \<Rightarrow> descriptor list \<Rightarrow> string list" where
  "spec_listed credential ds =
     map cloneURL
       (filter (\<lambda>d. if isFork d then False
                     else if credential = None then \<not> isPrivate d
                     else True) ds)"

text \<open>
  The endpoint serves the pages \<open>pages\<close> to a walk that starts at \<open>url\<close> in the
  world \<open>w\<close>: each request is answered by the next page, every page but the
  last carries a \<^verbatim>\<open>next\<close> link, which is where the following request goes, and
  the last page carries none.
\<close>

fun serves :: "env \<Rightarrow> headers \<Rightarrow> world \<Rightarrow> string \<Rightarrow> response list \<Rightarrow> bool" where
  "serves E hs w url [] = False"
| "serves E hs w url (page # pages) =
     (http_get E w url hs = Inr page \<and>
      (case links page ''next'' of
         None \<Rightarrow> pages = []
       | Some next_page_url \<Rightarrow>
           pages \<noteq> [] \<and> serves E hs (w @ [Get url hs (Inr page)]) next_page_url pages))"

fun is_request :: "event \<Rightarrow> bool" where
  "is_request (Get url hs r) = True"
| "is_request ev = False"

text \<open>A listing of two pages, and a host that serves it.\<close>

definition page_one :: response where
  "page_one =
     \<lparr> status_code = 200,
       json_body = Some (PList [repo_object ''https://github.com/acme/A.git'' True False,
                                repo_object ''https://github.com/acme/B.git'' False False]),
       links = [''next'' \<mapsto> ''https://api.github.com/user/9/repos?page=2''] \<rparr>"

definition page_two :: response where
  "page_two =
     \<lparr> status_code = 200,
       json_body = Some (PList [repo_object ''https://github.com/acme/C.git'' False True,
                                repo_object ''https://github.com/acme/D.git'' False False]),
       links = Map.empty \<rparr>"

definition two_page_host :: "(string \<Rightarrow> bool) \<Rightarrow> env" where
  "two_page_host ex =
     posix_env (\<lambda>w c. 0)
       (\<lambda>w u h. if u = ''https://api.github.com/users/acme/repos'' then Inr page_one
                  else Inr page_two) ex"

text \<open>A request that came back with a response, whatever its status.\<close>

fun answered :: "event \<Rightarrow> bool" where
  "answered (Get url hs (Inr response)) = True"
| "answered ev = False"



text \<open>The descriptors of the two-page listing above.\<close>

definition two_page_descriptors :: "descriptor list list" where
  "two_page_descriptors =
     [[\<lparr>cloneURL = ''https://github.com/acme/A.git'', isFork = True, isPrivate = False\<rparr>,
       \<lparr>cloneURL = ''https://github.com/acme/B.git'', isFork = False, isPrivate = False\<rparr>],
      [\<lparr>cloneURL = ''https://github.com/acme/C.git'', isFork = False, isPrivate = True\<rparr>,
       \<lparr>cloneURL = ''https://github.com/acme/D.git'', isFork = False, isPrivate = False\<rparr>]]"

text \<open>
  The attempts a trace holds of one command, and the lines the report loop
  prints (\<^verbatim>\<open>f"{repo_name} generated an exception: {exc}"\<close>).
\<close>

definition attempts_of :: "string \<Rightarrow> world \<Rightarrow> nat" where
  "attempts_of command w =
     length (filter (\<lambda>ev. case ev of Run c r \<Rightarrow> c = command | _ \<Rightarrow> False) w)"

fun exception_line :: "event \<Rightarrow> bool" where
  "exception_line (Print [Val repo, Lit s, Exc exc]) = (s = '' generated an exception: '')"
| "exception_line ev = False"



text \<open>The host of the account above with \<^verbatim>\<open>GH_TOKEN\<close> set to the empty string.\<close>

definition empty_token_host :: env where
  "empty_token_host = acme_host \<lparr> default_token := Some [] \<rparr>"

section \<open>The Clone Executor's retry budget\<close>

lemma run_git_clone_spent:
  "max_retries \<le> 0 \<Longrightarrow>
   run_git_clone E repo directory repo_name max_retries w =
     (Inl (RuntimeError [Lit ''Failed to clone '', Val (PStr repo_name), Lit '' after '',
                         Val (PInt max_retries), Lit '' retries'']), w)"
  by (subst run_git_clone.simps) simp

lemma run_git_clone_first_try:
  "0 < max_retries \<Longrightarrow> shell E w (clone_command E repo directory repo_name) = 0 \<Longrightarrow>
   run_git_clone E repo directory repo_name max_retries w =
     (Inr (), w @ [Run (clone_command E repo directory repo_name) 0])"
  by (subst run_git_clone.simps) simp

lemma run_git_clone_all_fail:
  assumes "\<And>h. shell E h (clone_command E repo directory repo_name) \<noteq> 0"
  shows "0 \<le> max_retries \<Longrightarrow>
    \<exists>w'. run_git_clone E repo directory repo_name max_retries w =
       (Inl (RuntimeError [Lit ''Failed to clone '', Val (PStr repo_name), Lit '' after '',
                           Val (PInt 0), Lit '' retries'']), w')
      \<and> clone_attempts w' = clone_attempts w + nat max_retries"
proof (induction "nat max_retries" arbitrary: max_retries w)
  case 0
  then have "max_retries = 0" by simp
  then show ?case by (simp add: run_git_clone_spent)
next
  case (Suc n)
  let ?c = "clone_command E repo directory repo_name"
  let ?w = "w @ [Run ?c (shell E w ?c)] @
            [Print [Lit ''Error cloning '', Val (PStr repo_name), Lit '': '',
                    Exc (CalledProcessError (shell E w ?c) ?c)], Sleep 5]"
  have pos: "0 < max_retries" using Suc.hyps(2) by simp
  have ne: "shell E w ?c \<noteq> 0" using assms by simp
  have "n = nat (max_retries - 1)" "0 \<le> max_retries - 1" using Suc.hyps(2) by simp_all
  from Suc.hyps(1)[OF this, of ?w]
  obtain w' where w': "run_git_clone E repo directory repo_name (max_retries - 1) ?w =
       (Inl (RuntimeError [Lit ''Failed to clone '', Val (PStr repo_name), Lit '' after '',
                           Val (PInt 0), Lit '' retries'']), w')"
       "clone_attempts w' = clone_attempts ?w + nat (max_retries - 1)"
    by auto
  have step: "run_git_clone E repo directory repo_name max_retries w =
        run_git_clone E repo directory repo_name (max_retries - 1) ?w"
    using pos ne by (subst run_git_clone.simps) (simp add: Let_def)
  have "clone_attempts ?w = clone_attempts w + 1" by (simp add: clone_attempts_def)
  with step w' pos show ?case by (simp add: nat_diff_distrib)
qed

text \<open>
  Claim C1. With a budget \<open>R\<close> of at least one and a clone that fails at every
  attempt, \<open>run_git_clone\<close> makes exactly \<open>R\<close> attempts and then raises its
  error with the repository's name. The number the error carries is the counter
  after the loop has counted it down, which is 0 whatever \<open>R\<close> was, and not the
  number of attempts made.
\<close>

theorem exhausted_budget_reports_zero:
  assumes "1 \<le> R"
    and "\<And>h. shell E h (clone_command E repo directory repo_name) \<noteq> 0"
  shows "\<exists>w'. run_git_clone E repo directory repo_name R w =
           (Inl (RuntimeError [Lit ''Failed to clone '', Val (PStr repo_name), Lit '' after '',
                               Val (PInt 0), Lit '' retries'']), w')
         \<and> clone_attempts w' = clone_attempts w + nat R"
  using assms(1) run_git_clone_all_fail [OF assms(2), of R w] by simp

theorem exhausted_budget_reports_zero_witness:
  "(1::int) \<le> 3
   \<and> (\<forall>h. shell failing_host h
          (clone_command failing_host ''https://github.com/o/r.git'' ''./repos'' ''r'') \<noteq> 0)
   \<and> (\<exists>w'. run_git_clone failing_host ''https://github.com/o/r.git'' ''./repos'' ''r'' 3 [] =
          (Inl (RuntimeError [Lit ''Failed to clone '', Val (PStr ''r''), Lit '' after '',
                              Val (PInt 0), Lit '' retries'']), w')
        \<and> clone_attempts w' = 3)"
proof -
  have h: "\<And>h. shell failing_host h
          (clone_command failing_host ''https://github.com/o/r.git'' ''./repos'' ''r'') \<noteq> 0"
    by (simp add: failing_host_def posix_env_def)
  have "(1::int) \<le> 3" by simp
  from exhausted_budget_reports_zero [OF this h, of "[]"] h
  show ?thesis by (simp add: clone_attempts_def)
qed

text \<open>
  Claim C9. With a budget of exactly 0 the loop body never runs:
  \<open>run_git_clone\<close> raises at once and the world is as it was, with no command
  run, nothing printed and no delay.
\<close>

theorem zero_budget_no_attempt:
  "run_git_clone E repo directory repo_name 0 w =
     (Inl (RuntimeError [Lit ''Failed to clone '', Val (PStr repo_name), Lit '' after '',
                         Val (PInt 0), Lit '' retries'']), w)"
  by (simp add: run_git_clone_spent)

section \<open>The local name of a repository\<close>

lemma py_split_not_empty: "py_split sep s \<noteq> []"
  by (induction s) (auto split: list.splits)

text \<open>
  Claim C5. The name is a function of the url alone, but it is not the last
  path segment with a trailing \<^verbatim>\<open>.git\<close> removed: \<^verbatim>\<open>replace\<close> removes
  every \<^verbatim>\<open>.git\<close> in the segment. For the repository \<^verbatim>\<open>octocat.github.io\<close> the
  name comes out as \<^verbatim>\<open>octocathub.io\<close>.
\<close>

theorem derive_repo_name_drops_inner_git:
  "derive_repo_name ''https://github.com/octocat/octocat.github.io.git'' = ''octocathub.io''"
  by (simp add: derive_repo_name_def py_replace.simps)

section \<open>The destination directory\<close>

text \<open>
  Claim C3. When the destination directory exists, \<open>clone_repos\<close> raises
  \<^verbatim>\<open>FileExistsError\<close> and the world is as it was: no directory made, no task
  submitted, no clone attempted.
\<close>

theorem existing_destination_is_fatal:
  "path_exists E w directory \<Longrightarrow>
   clone_repos E repos directory show_progress n_threads w =
     (Inl (FileExistsError [Lit ''Directory '', Val (PStr directory), Lit '' already exists.'']), w)"
  by (simp add: clone_repos_def)

theorem existing_destination_is_fatal_witness:
  "path_exists (posix_env (\<lambda>w c. 0) (\<lambda>w u h. Inl (Raised ''ConnectionError'')) (\<lambda>p. p = ''./repos''))
     [] ''./repos''
   \<and> clone_repos (posix_env (\<lambda>w c. 0) (\<lambda>w u h. Inl (Raised ''ConnectionError'')) (\<lambda>p. p = ''./repos''))
       [PStr ''https://github.com/o/r.git''] ''./repos'' False 5 [] =
     (Inl (FileExistsError [Lit ''Directory '', Val (PStr ''./repos''), Lit '' already exists.'']), [])"
proof -
  have h: "path_exists (posix_env (\<lambda>w c. 0) (\<lambda>w u h. Inl (Raised ''ConnectionError''))
             (\<lambda>p. p = ''./repos'')) [] ''./repos''"
    by (simp add: posix_env_def)
  from existing_destination_is_fatal [OF h] h show ?thesis by simp
qed

section \<open>Failure isolation in a batch\<close>

lemma clone_repo_succeeds:
  assumes "\<And>h. shell E h (clone_command E u directory (derive_repo_name u)) = 0"
  shows "clone_repo E (PStr u) directory w =
           (Inr (derive_repo_name u),
            w @ [Print [Lit ''Cloning '', Val (PStr u), Lit ''...''],
                 Run (clone_command E u directory (derive_repo_name u)) 0])"
  using assms by (simp add: run_git_clone_first_try Let_def)

lemma attempts_of_simps [simp]:
  "attempts_of c [] = 0"
  "attempts_of c (Run c' r # w) = (if c' = c then 1 else 0) + attempts_of c w"
  "attempts_of c (Print p # w) = attempts_of c w"
  "attempts_of c (Sleep n # w) = attempts_of c w"
  "attempts_of c (Makedirs d # w) = attempts_of c w"
  "attempts_of c (Get url hs a # w) = attempts_of c w"
  "attempts_of c (xs @ ys) = attempts_of c xs + attempts_of c ys"
  by (simp_all add: attempts_of_def)

lemma run_git_clone_all_fail_events:
  assumes "\<And>h. shell E h (clone_command E repo directory repo_name) \<noteq> 0"
  shows "0 \<le> max_retries \<Longrightarrow>
    \<exists>evs. run_git_clone E repo directory repo_name max_retries w =
       (Inl (RuntimeError [Lit ''Failed to clone '', Val (PStr repo_name), Lit '' after '',
                           Val (PInt 0), Lit '' retries'']), w @ evs)
      \<and> attempts_of (clone_command E repo directory repo_name) evs = nat max_retries
      \<and> list_all (\<lambda>ev. \<not> exception_line ev) evs"
proof (induction "nat max_retries" arbitrary: max_retries w)
  case 0
  then have "max_retries = 0" by simp
  then have "run_git_clone E repo directory repo_name max_retries w =
       (Inl (RuntimeError [Lit ''Failed to clone '', Val (PStr repo_name), Lit '' after '',
                           Val (PInt 0), Lit '' retries'']), w @ [])"
    by (simp add: run_git_clone_spent)
  moreover have "attempts_of (clone_command E repo directory repo_name) [] = nat max_retries"
    using \<open>max_retries = 0\<close> by simp
  ultimately show ?case by (intro exI [of _ "[]"]) simp
next
  case (Suc n)
  let ?c = "clone_command E repo directory repo_name"
  let ?evs = "[Run ?c (shell E w ?c),
               Print [Lit ''Error cloning '', Val (PStr repo_name), Lit '': '',
                      Exc (CalledProcessError (shell E w ?c) ?c)], Sleep 5]"
  have pos: "0 < max_retries" using Suc.hyps(2) by simp
  have ne: "shell E w ?c \<noteq> 0" using assms by simp
  have "n = nat (max_retries - 1)" "0 \<le> max_retries - 1" using Suc.hyps(2) by simp_all
  from Suc.hyps(1)[OF this, of "w @ ?evs"]
  obtain evs where evs: "run_git_clone E repo directory repo_name (max_retries - 1) (w @ ?evs) =
       (Inl (RuntimeError [Lit ''Failed to clone '', Val (PStr repo_name), Lit '' after '',
                           Val (PInt 0), Lit '' retries'']), (w @ ?evs) @ evs)"
       "attempts_of ?c evs = nat (max_retries - 1)"
       "list_all (\<lambda>ev. \<not> exception_line ev) evs"
    by auto
  have step: "run_git_clone E repo directory repo_name max_retries w =
        run_git_clone E repo directory repo_name (max_retries - 1) (w @ ?evs)"
    using pos ne by (subst run_git_clone.simps) (simp add: Let_def)
  have "attempts_of ?c (?evs @ evs) = nat max_retries"
    using evs(2) pos by (simp add: nat_diff_distrib)
  moreover have "list_all (\<lambda>ev. \<not> exception_line ev) (?evs @ evs)" using evs(3) by simp
  moreover have "run_git_clone E repo directory repo_name max_retries w =
       (Inl (RuntimeError [Lit ''Failed to clone '', Val (PStr repo_name), Lit '' after '',
                           Val (PInt 0), Lit '' retries'']), w @ (?evs @ evs))"
    using step evs(1) by simp
  ultimately show ?case by blast
qed

lemma clone_repo_fails_events:
  assumes "\<And>h. shell E h (clone_command E u directory (derive_repo_name u)) \<noteq> 0"
  shows "\<exists>evs. clone_repo E (PStr u) directory w =
           (Inl (RuntimeError [Lit ''Failed to clone '', Val (PStr (derive_repo_name u)),
                               Lit '' after '', Val (PInt 0), Lit '' retries'']), w @ evs)
      \<and> attempts_of (clone_command E u directory (derive_repo_name u)) evs = 5
      \<and> list_all (\<lambda>ev. \<not> exception_line ev) evs"
proof -
  let ?p = "Print [Lit ''Cloning '', Val (PStr u), Lit ''...'']"
  from run_git_clone_all_fail_events [OF assms, of 5 "w @ [?p]"]
  obtain evs where evs: "run_git_clone E u directory (derive_repo_name u) 5 (w @ [?p]) =
       (Inl (RuntimeError [Lit ''Failed to clone '', Val (PStr (derive_repo_name u)), Lit '' after '',
                           Val (PInt 0), Lit '' retries'']), (w @ [?p]) @ evs)"
    "attempts_of (clone_command E u directory (derive_repo_name u)) evs = 5"
    "list_all (\<lambda>ev. \<not> exception_line ev) evs"
    by auto
  have "clone_repo E (PStr u) directory w =
           (Inl (RuntimeError [Lit ''Failed to clone '', Val (PStr (derive_repo_name u)),
                               Lit '' after '', Val (PInt 0), Lit '' retries'']), w @ (?p # evs))"
    using evs(1) by (simp add: Let_def)
  moreover have "attempts_of (clone_command E u directory (derive_repo_name u)) (?p # evs) = 5"
    using evs(2) by simp
  moreover have "list_all (\<lambda>ev. \<not> exception_line ev) (?p # evs)" using evs(3) by simp
  ultimately show ?thesis by blast
qed

lemma submit_all_events:
  assumes ko: "\<And>h. shell E h (clone_command E bad directory (derive_repo_name bad)) \<noteq> 0"
  shows "(\<And>u h. u \<in> set urls \<Longrightarrow> u \<noteq> bad \<Longrightarrow>
             shell E h (clone_command E u directory (derive_repo_name u)) = 0) \<Longrightarrow>
    \<exists>evs. submit_all E (map PStr urls) directory w =
      (map (\<lambda>u. (if u = bad
                  then Inl (RuntimeError [Lit ''Failed to clone '', Val (PStr (derive_repo_name bad)),
                                          Lit '' after '', Val (PInt 0), Lit '' retries''])
                  else Inr (derive_repo_name u), PStr u)) urls, w @ evs)
     \<and> (\<forall>u \<in> set urls. u \<noteq> bad \<longrightarrow>
           Run (clone_command E u directory (derive_repo_name u)) 0 \<in> set evs)
     \<and> attempts_of (clone_command E bad directory (derive_repo_name bad)) evs
          = 5 * count_list urls bad
     \<and> list_all (\<lambda>ev. \<not> exception_line ev) evs"
proof (induction urls arbitrary: w)
  case Nil
  show ?case by simp
next
  case (Cons u urls)
  let ?x = "RuntimeError [Lit ''Failed to clone '', Val (PStr (derive_repo_name bad)),
                          Lit '' after '', Val (PInt 0), Lit '' retries'']"
  let ?f = "\<lambda>u. (if u = bad then Inl ?x else Inr (derive_repo_name u), PStr u)"
  let ?cb = "clone_command E bad directory (derive_repo_name bad)"
  have rest: "\<And>v. \<exists>evs. submit_all E (map PStr urls) directory v = (map ?f urls, v @ evs)
     \<and> (\<forall>u \<in> set urls. u \<noteq> bad \<longrightarrow>
           Run (clone_command E u directory (derive_repo_name u)) 0 \<in> set evs)
     \<and> attempts_of ?cb evs = 5 * count_list urls bad
     \<and> list_all (\<lambda>ev. \<not> exception_line ev) evs"
    using Cons.IH Cons.prems by simp
  show ?case
  proof (cases "u = bad")
    case True
    from clone_repo_fails_events [OF ko, of w] obtain evs1 where
      e1: "clone_repo E (PStr bad) directory w = (Inl ?x, w @ evs1)"
        "attempts_of ?cb evs1 = 5" "list_all (\<lambda>ev. \<not> exception_line ev) evs1"
      by auto
    from rest [of "(w @ evs1) @ [Sleep 1]"] obtain evs2 where
      e2: "submit_all E (map PStr urls) directory ((w @ evs1) @ [Sleep 1]) =
             (map ?f urls, ((w @ evs1) @ [Sleep 1]) @ evs2)"
        "\<forall>u \<in> set urls. u \<noteq> bad \<longrightarrow>
           Run (clone_command E u directory (derive_repo_name u)) 0 \<in> set evs2"
        "attempts_of ?cb evs2 = 5 * count_list urls bad"
        "list_all (\<lambda>ev. \<not> exception_line ev) evs2"
      by auto
    let ?evs = "evs1 @ Sleep 1 # evs2"
    have "submit_all E (map PStr (u # urls)) directory w = (map ?f (u # urls), w @ ?evs)"
      using True e1(1) e2(1) by (simp del: clone_repo.simps)
    moreover have "\<forall>v \<in> set (u # urls). v \<noteq> bad \<longrightarrow>
           Run (clone_command E v directory (derive_repo_name v)) 0 \<in> set ?evs"
      using True e2(2) by auto
    moreover have "attempts_of ?cb ?evs = 5 * count_list (u # urls) bad"
      using True e1(2) e2(3) by simp
    moreover have "list_all (\<lambda>ev. \<not> exception_line ev) ?evs" using e1(3) e2(4) by simp
    ultimately show ?thesis by blast
  next
    case False
    let ?c = "clone_command E u directory (derive_repo_name u)"
    have ok: "\<And>h. shell E h ?c = 0" using Cons.prems False by simp
    have neq: "?c \<noteq> ?cb" using ok [of "[]"] ko [of "[]"] by auto
    let ?evs1 = "[Print [Lit ''Cloning '', Val (PStr u), Lit ''...''], Run ?c 0]"
    from rest [of "(w @ ?evs1) @ [Sleep 1]"] obtain evs2 where
      e2: "submit_all E (map PStr urls) directory ((w @ ?evs1) @ [Sleep 1]) =
             (map ?f urls, ((w @ ?evs1) @ [Sleep 1]) @ evs2)"
        "\<forall>u \<in> set urls. u \<noteq> bad \<longrightarrow>
           Run (clone_command E u directory (derive_repo_name u)) 0 \<in> set evs2"
        "attempts_of ?cb evs2 = 5 * count_list urls bad"
        "list_all (\<lambda>ev. \<not> exception_line ev) evs2"
      by auto
    let ?evs = "?evs1 @ Sleep 1 # evs2"
    have "submit_all E (map PStr (u # urls)) directory w = (map ?f (u # urls), w @ ?evs)"
      using False e2(1) by (simp add: clone_repo_succeeds [OF ok] del: clone_repo.simps)
    moreover have "\<forall>v \<in> set (u # urls). v \<noteq> bad \<longrightarrow>
           Run (clone_command E v directory (derive_repo_name v)) 0 \<in> set ?evs"
      using e2(2) by auto
    moreover have "attempts_of ?cb ?evs = 5 * count_list (u # urls) bad"
      using False neq e2(3) by simp
    moreover have "list_all (\<lambda>ev. \<not> exception_line ev) ?evs" using e2(4) by simp
    ultimately show ?thesis by blast
  qed
qed

lemma report_appends:
  "report fs w =
     w @ concat (map (\<lambda>(r, repo). case r of
                        Inl exc \<Rightarrow> [Print [Val repo, Lit '' generated an exception: '', Exc exc]]
                      | Inr name \<Rightarrow> []) fs)"
  by (induction fs w rule: report.induct) simp_all

lemma report_no_failure:
  "bad \<notin> set urls \<Longrightarrow>
   concat (map (\<lambda>(r, repo). case r of
                        Inl exc \<Rightarrow> [Print [Val repo, Lit '' generated an exception: '', Exc exc]]
                      | Inr name \<Rightarrow> [])
      (map (\<lambda>u. (if u = bad then Inl x else Inr (derive_repo_name u), PStr u)) urls)) = []"
  by (induction urls) auto

lemma filter_none: "list_all (\<lambda>x. \<not> P x) xs \<Longrightarrow> filter P xs = []"
  by (induction xs) simp_all

text \<open>
  Claim C2. In a batch where the clone of exactly one url, \<open>bad\<close>, fails at
  every attempt and every other clone succeeds, \<open>clone_repos\<close> returns
  normally. Whatever the order of the events: for every other url the trace
  holds its \<^verbatim>\<open>git clone\<close> command run with return code 0, and its future
  holds the name of its repository; the command of \<open>bad\<close> is attempted five
  times, and its future holds the error; and the report loop prints one line,
  for \<open>bad\<close>, and no other. The destination must not exist, \<^verbatim>\<open>os.makedirs\<close>
  must succeed and the pool must have at least one worker, or the batch does not
  start.
\<close>

theorem one_failure_leaves_the_others_cloned:
  assumes urls: "urls = pre @ bad # post" "bad \<notin> set pre" "bad \<notin> set post"
    and ko: "\<And>h. shell E h (clone_command E bad directory (derive_repo_name bad)) \<noteq> 0"
    and ok: "\<And>u h. u \<in> set pre \<union> set post \<Longrightarrow>
               shell E h (clone_command E u directory (derive_repo_name u)) = 0"
    and dir: "\<not> path_exists E w directory" "makedirs_error E w directory = None"
    and pool: "0 < n_threads"
  shows "\<exists>future_to_repo w2 evs.
      submit_all E (map PStr urls) directory (w @ [Makedirs directory]) = (future_to_repo, w2)
    \<and> map fst future_to_repo =
        map (\<lambda>u. if u = bad
                 then Inl (RuntimeError [Lit ''Failed to clone '', Val (PStr (derive_repo_name bad)),
                                         Lit '' after '', Val (PInt 0), Lit '' retries''])
                 else Inr (derive_repo_name u)) urls
    \<and> clone_repos E (map PStr urls) directory show_progress n_threads w = (Inr (), w @ evs)
    \<and> (\<forall>u \<in> set pre \<union> set post.
          Run (clone_command E u directory (derive_repo_name u)) 0 \<in> set evs)
    \<and> attempts_of (clone_command E bad directory (derive_repo_name bad)) evs = 5
    \<and> filter exception_line evs =
        [Print [Val (PStr bad), Lit '' generated an exception: '',
                Exc (RuntimeError [Lit ''Failed to clone '', Val (PStr (derive_repo_name bad)),
                                   Lit '' after '', Val (PInt 0), Lit '' retries''])]]"
proof -
  let ?x = "RuntimeError [Lit ''Failed to clone '', Val (PStr (derive_repo_name bad)),
                          Lit '' after '', Val (PInt 0), Lit '' retries'']"
  let ?f = "\<lambda>u. (if u = bad then Inl ?x else Inr (derive_repo_name u), PStr u)"
  let ?line = "Print [Val (PStr bad), Lit '' generated an exception: '', Exc ?x]"
  let ?cb = "clone_command E bad directory (derive_repo_name bad)"
  let ?w1 = "w @ [Makedirs directory]"
  have "\<And>u h. u \<in> set urls \<Longrightarrow> u \<noteq> bad \<Longrightarrow>
             shell E h (clone_command E u directory (derive_repo_name u)) = 0"
    using ok urls(1) by auto
  from submit_all_events [OF ko this, of urls ?w1]
  obtain evs where s: "submit_all E (map PStr urls) directory ?w1 = (map ?f urls, ?w1 @ evs)"
    and runs: "\<forall>u \<in> set urls. u \<noteq> bad \<longrightarrow>
           Run (clone_command E u directory (derive_repo_name u)) 0 \<in> set evs"
    and five: "attempts_of ?cb evs = 5 * count_list urls bad"
    and quiet: "list_all (\<lambda>ev. \<not> exception_line ev) evs"
    by auto
  have m: "map fst (map ?f urls) =
        map (\<lambda>u. if u = bad then Inl ?x else Inr (derive_repo_name u)) urls"
    by simp
  have r: "report (map ?f urls) (?w1 @ evs) = (?w1 @ evs) @ [?line]"
    unfolding report_appends urls(1)
    by (simp del: map_map
          add: report_no_failure [OF urls(2), of ?x] report_no_failure [OF urls(3), of ?x])
  have c: "clone_repos E (map PStr urls) directory show_progress n_threads w =
          (Inr (), w @ (Makedirs directory # evs @ [?line]))"
    using dir pool s r by (simp add: clone_repos_def)
  have once: "count_list urls bad = 1"
    using urls by (simp add: count_list_0_iff)
  have a: "\<forall>u \<in> set pre \<union> set post.
          Run (clone_command E u directory (derive_repo_name u)) 0
            \<in> set (Makedirs directory # evs @ [?line])"
    using runs urls by auto
  have b: "attempts_of ?cb (Makedirs directory # evs @ [?line]) = 5"
    using five once by simp
  have d: "filter exception_line (Makedirs directory # evs @ [?line]) = [?line]"
    using filter_none [OF quiet] by simp
  from s m c a b d show ?thesis by blast
qed

theorem one_failure_leaves_the_others_cloned_witness:
  "(\<forall>h. shell one_bad_host h
          (clone_command one_bad_host ''https://github.com/o/b.git'' ''./repos''
             (derive_repo_name ''https://github.com/o/b.git'')) \<noteq> 0)
   \<and> (\<forall>h. shell one_bad_host h
          (clone_command one_bad_host ''https://github.com/o/a.git'' ''./repos''
             (derive_repo_name ''https://github.com/o/a.git'')) = 0)
   \<and> (\<forall>h. shell one_bad_host h
          (clone_command one_bad_host ''https://github.com/o/c.git'' ''./repos''
             (derive_repo_name ''https://github.com/o/c.git'')) = 0)
   \<and> (\<exists>future_to_repo w2 evs.
        submit_all one_bad_host
          [PStr ''https://github.com/o/a.git'', PStr ''https://github.com/o/b.git'',
           PStr ''https://github.com/o/c.git''] ''./repos'' [Makedirs ''./repos''] =
          (future_to_repo, w2)
      \<and> map fst future_to_repo =
          [Inr ''a'',
           Inl (RuntimeError [Lit ''Failed to clone '', Val (PStr ''b''), Lit '' after '',
                              Val (PInt 0), Lit '' retries'']),
           Inr ''c'']
      \<and> clone_repos one_bad_host
          [PStr ''https://github.com/o/a.git'', PStr ''https://github.com/o/b.git'',
           PStr ''https://github.com/o/c.git''] ''./repos'' False 2 [] = (Inr (), evs)
      \<and> Run ''git clone https://github.com/o/a.git ./repos/a/ > /dev/null 2>&1'' 0 \<in> set evs
      \<and> Run ''git clone https://github.com/o/c.git ./repos/c/ > /dev/null 2>&1'' 0 \<in> set evs
      \<and> attempts_of ''git clone https://github.com/o/b.git ./repos/b/ > /dev/null 2>&1'' evs = 5
      \<and> filter exception_line evs =
          [Print [Val (PStr ''https://github.com/o/b.git''), Lit '' generated an exception: '',
                  Exc (RuntimeError [Lit ''Failed to clone '', Val (PStr ''b''),
                                     Lit '' after '', Val (PInt 0), Lit '' retries''])]])"
proof -
  have names: "derive_repo_name ''https://github.com/o/a.git'' = ''a''"
    "derive_repo_name ''https://github.com/o/b.git'' = ''b''"
    "derive_repo_name ''https://github.com/o/c.git'' = ''c''"
    by (simp_all add: derive_repo_name_def py_replace.simps)
  have cmds:
    "clone_command one_bad_host ''https://github.com/o/a.git'' ''./repos'' ''a'' =
       ''git clone https://github.com/o/a.git ./repos/a/ > /dev/null 2>&1''"
    "clone_command one_bad_host ''https://github.com/o/b.git'' ''./repos'' ''b'' =
       ''git clone https://github.com/o/b.git ./repos/b/ > /dev/null 2>&1''"
    "clone_command one_bad_host ''https://github.com/o/c.git'' ''./repos'' ''c'' =
       ''git clone https://github.com/o/c.git ./repos/c/ > /dev/null 2>&1''"
    by (simp_all add: one_bad_host_def posix_env_def clone_command_def posix_join_def)
  have ko: "\<And>h. shell one_bad_host h
          (clone_command one_bad_host ''https://github.com/o/b.git'' ''./repos''
             (derive_repo_name ''https://github.com/o/b.git'')) \<noteq> 0"
    by (simp add: names cmds) (simp add: one_bad_host_def posix_env_def)
  have oka: "\<And>h. shell one_bad_host h
          (clone_command one_bad_host ''https://github.com/o/a.git'' ''./repos''
             (derive_repo_name ''https://github.com/o/a.git'')) = 0"
    and okc: "\<And>h. shell one_bad_host h
          (clone_command one_bad_host ''https://github.com/o/c.git'' ''./repos''
             (derive_repo_name ''https://github.com/o/c.git'')) = 0"
    by (simp_all add: names cmds) (simp_all add: one_bad_host_def posix_env_def)
  have ok: "\<And>u h. u \<in> set [''https://github.com/o/a.git''] \<union> set [''https://github.com/o/c.git''] \<Longrightarrow>
          shell one_bad_host h (clone_command one_bad_host u ''./repos'' (derive_repo_name u)) = 0"
    using oka okc by auto
  have dir: "\<not> path_exists one_bad_host [] ''./repos''"
    "makedirs_error one_bad_host [] ''./repos'' = None"
    by (simp_all add: one_bad_host_def posix_env_def)
  have urls: "[''https://github.com/o/a.git'', ''https://github.com/o/b.git'',
               ''https://github.com/o/c.git''] =
              [''https://github.com/o/a.git''] @ ''https://github.com/o/b.git'' #
              [''https://github.com/o/c.git'']"
    "''https://github.com/o/b.git'' \<notin> set [''https://github.com/o/a.git'']"
    "''https://github.com/o/b.git'' \<notin> set [''https://github.com/o/c.git'']"
    by simp_all
  have pool: "(0::int) < 2" by simp
  from one_failure_leaves_the_others_cloned [OF urls ko ok dir pool, of False] ko oka okc
  show ?thesis
    by (simp add: names cmds del: submit_all.simps)
       (elim exE conjE, intro exI conjI, assumption+)
qed

section \<open>What the Lister returns\<close>

lemma select_not_filter:
  "select_not k xs = Inr ys \<Longrightarrow> ys = filter (\<lambda>repo. \<not> flag k repo) xs"
  by (induction xs arbitrary: ys) (auto simp: flag_def split: sum.splits if_splits)

lemma collect_all2:
  "collect k xs = Inr ys \<Longrightarrow> list_all2 (\<lambda>v repo. py_getitem repo k = Inr v) ys xs"
  by (induction xs arbitrary: ys) (auto split: sum.splits)

lemma page_repo_urls_kept:
  assumes "page_repo_urls pat_token response = Inr repo_urls"
  shows "list_all2 (\<lambda>url repo. py_getitem repo ''clone_url'' = Inr url) repo_urls
           (filter (kept pat_token) (page_items (Get url hs (Inr response))))"
proof -
  from assms obtain response_json items repos repos' where
    b: "json_body response = Some response_json" and
    i: "py_iter response_json = Inr items" and
    f: "select_not ''fork'' items = Inr repos" and
    p: "(if pat_token = None then select_not ''private'' repos else Inr repos) = Inr repos'" and
    c: "collect ''clone_url'' repos' = Inr repo_urls"
    by (auto simp: page_repo_urls_def split: option.splits sum.splits)
  have "repos = filter (\<lambda>repo. \<not> flag ''fork'' repo) items"
    using f by (rule select_not_filter)
  moreover have "repos' = filter (\<lambda>repo. pat_token \<noteq> None \<or> \<not> flag ''private'' repo) repos"
    using p by (auto dest: select_not_filter split: if_splits)
  moreover have "kept pat_token =
      (\<lambda>repo. \<not> flag ''fork'' repo \<and> (pat_token \<noteq> None \<or> \<not> flag ''private'' repo))"
    by (auto simp: kept_def fun_eq_iff)
  ultimately have "repos' = filter (kept pat_token) items"
    by simp
  with collect_all2 [OF c] b i show ?thesis by simp
qed

lemma get_public_repos_kept:
  "get_public_repos depth E username pat_token page_url w = Some (Inr repo_urls, w') \<Longrightarrow>
   \<exists>evs. w' = w @ evs \<and>
     list_all2 (\<lambda>url repo. py_getitem repo ''clone_url'' = Inr url) repo_urls
       (filter (kept pat_token) (received evs))"
proof (induction depth arbitrary: page_url w repo_urls w')
  case 0
  then show ?case by simp
next
  case (Suc depth)
  let ?hs = "auth_headers pat_token" and ?url = "request_url username page_url"
  from Suc.prems obtain response where g: "http_get E w ?url ?hs = Inr response"
    by (auto simp: Let_def split: sum.splits)
  let ?w1 = "w @ [Get ?url ?hs (Inr response)]"
  from Suc.prems g obtain urls1 where u1: "page_repo_urls pat_token response = Inr urls1"
    by (auto simp: Let_def split: sum.splits)
  note k1 = page_repo_urls_kept [OF u1, of ?url ?hs]
  show ?case
  proof (cases "links response ''next''")
    case None
    with Suc.prems g u1 have "repo_urls = urls1" "w' = ?w1" by (simp_all add: Let_def)
    with k1 show ?thesis by (simp add: received_def)
  next
    case (Some next_page_url)
    with Suc.prems g u1 obtain rest where
      r: "get_public_repos depth E username pat_token (Some next_page_url) ?w1 = Some (Inr rest, w')"
      and e: "repo_urls = urls1 @ rest"
      by (auto simp: Let_def split: option.splits sum.splits)
    from Suc.IH [OF r] obtain evs where
      evs: "w' = ?w1 @ evs"
        "list_all2 (\<lambda>url repo. py_getitem repo ''clone_url'' = Inr url) rest
           (filter (kept pat_token) (received evs))"
      by auto
    have "list_all2 (\<lambda>url repo. py_getitem repo ''clone_url'' = Inr url) (urls1 @ rest)
            (filter (kept pat_token) (received (Get ?url ?hs (Inr response) # evs)))"
      using k1 evs(2) by (simp add: received_def list_all2_appendI)
    with evs(1) e show ?thesis by auto
  qed
qed


lemma list_all2_left_member:
  "list_all2 P xs ys \<Longrightarrow> x \<in> set xs \<Longrightarrow> \<exists>y \<in> set ys. P x y"
  by (induction rule: list_all2_induct) auto

text \<open>
  Whenever the Lister returns, its output is, entry by entry, the
  \<^verbatim>\<open>clone_url\<close> of the repository objects it received that pass the filters,
  in the order received: those whose \<^verbatim>\<open>fork\<close> flag is not set and, when
  \<^verbatim>\<open>pat_token is None\<close>, whose \<^verbatim>\<open>private\<close> flag is not set. So, the clone
  urls of the received objects being distinct, the url of no fork is in the
  output, and with \<^verbatim>\<open>pat_token\<close> \<^verbatim>\<open>None\<close> the url of no private repository
  either. With a token a private repository that is not a fork does appear.
\<close>

lemma lister_output_is_kept_objects:
  "(get_public_repos depth E username pat_token page_url w = Some (Inr repo_urls, w') \<longrightarrow>
      (\<exists>evs. w' = w @ evs
        \<and> list_all2 (\<lambda>url repo. py_getitem repo ''clone_url'' = Inr url) repo_urls
             (filter (kept pat_token) (received evs))
        \<and> (distinct (map (\<lambda>repo. py_getitem repo ''clone_url'') (received evs)) \<longrightarrow>
             (\<forall>repo \<in> set (received evs).
                flag ''fork'' repo \<or> (pat_token = None \<and> flag ''private'' repo) \<longrightarrow>
                py_getitem repo ''clone_url'' \<notin> Inr ` set repo_urls))))
   \<and> (\<exists>w'. get_public_repos 1 acme_host ''acme'' (Some ''t0ken'') None [] =
          Some (Inr [PStr ''https://github.com/acme/B.git'',
                     PStr ''https://github.com/acme/C.git''], w'))"
proof (intro conjI impI)
  assume "get_public_repos depth E username pat_token page_url w = Some (Inr repo_urls, w')"
  from get_public_repos_kept [OF this] obtain evs where
    evs: "w' = w @ evs"
      "list_all2 (\<lambda>url repo. py_getitem repo ''clone_url'' = Inr url) repo_urls
         (filter (kept pat_token) (received evs))"
    by auto
  have "py_getitem repo ''clone_url'' \<notin> Inr ` set repo_urls"
    if d: "distinct (map (\<lambda>repo. py_getitem repo ''clone_url'') (received evs))"
      and r: "repo \<in> set (received evs)"
      and f: "flag ''fork'' repo \<or> (pat_token = None \<and> flag ''private'' repo)"
    for repo
  proof
    assume "py_getitem repo ''clone_url'' \<in> Inr ` set repo_urls"
    then obtain url where u: "url \<in> set repo_urls" "py_getitem repo ''clone_url'' = Inr url"
      by auto
    from u(1) evs(2) obtain repo' where
      r': "repo' \<in> set (filter (kept pat_token) (received evs))"
        "py_getitem repo' ''clone_url'' = Inr url"
      using list_all2_left_member [OF evs(2) u(1)] by auto
    from d have "inj_on (\<lambda>repo. py_getitem repo ''clone_url'') (set (received evs))"
      by (simp add: distinct_map)
    moreover have "repo' \<in> set (received evs)" using r'(1) by simp
    moreover have "py_getitem repo ''clone_url'' = py_getitem repo' ''clone_url''"
      using u(2) r'(2) by simp
    ultimately have "repo = repo'" using r by (simp add: inj_on_def)
    with r'(1) f show False by (auto simp: kept_def split: if_splits)
  qed
  with evs show "\<exists>evs. w' = w @ evs
        \<and> list_all2 (\<lambda>url repo. py_getitem repo ''clone_url'' = Inr url) repo_urls
             (filter (kept pat_token) (received evs))
        \<and> (distinct (map (\<lambda>repo. py_getitem repo ''clone_url'') (received evs)) \<longrightarrow>
             (\<forall>repo \<in> set (received evs).
                flag ''fork'' repo \<or> (pat_token = None \<and> flag ''private'' repo) \<longrightarrow>
                py_getitem repo ''clone_url'' \<notin> Inr ` set repo_urls))"
    by blast
next
  show "\<exists>w'. get_public_repos 1 acme_host ''acme'' (Some ''t0ken'') None [] =
          Some (Inr [PStr ''https://github.com/acme/B.git'',
                     PStr ''https://github.com/acme/C.git''], w')"
    by (simp add: acme_host_def posix_env_def acme_page_def repo_object_def
          page_repo_urls_def auth_headers_def request_url_def)
qed

lemma acme_unauthenticated_listing:
  "get_public_repos 1 acme_host ''acme'' None None [] =
     Some (Inr [PStr ''https://github.com/acme/B.git''],
           [Get ''https://api.github.com/users/acme/repos'' [] (Inr acme_page)])
   \<and> filter (kept None) (received [Get ''https://api.github.com/users/acme/repos'' [] (Inr acme_page)]) =
       [repo_object ''https://github.com/acme/B.git'' False False]
   \<and> py_getitem (repo_object ''https://github.com/acme/A.git'' True False) ''clone_url''
       \<notin> Inr ` set [PStr ''https://github.com/acme/B.git'']
   \<and> py_getitem (repo_object ''https://github.com/acme/C.git'' False True) ''clone_url''
       \<notin> Inr ` set [PStr ''https://github.com/acme/B.git'']"
proof -
  have run: "get_public_repos 1 acme_host ''acme'' None None [] =
     Some (Inr [PStr ''https://github.com/acme/B.git''],
           [Get ''https://api.github.com/users/acme/repos'' [] (Inr acme_page)])"
    by (simp add: acme_host_def posix_env_def acme_page_def repo_object_def
          page_repo_urls_def auth_headers_def request_url_def)
  have rec: "received [Get ''https://api.github.com/users/acme/repos'' [] (Inr acme_page)] =
      [repo_object ''https://github.com/acme/A.git'' True False,
       repo_object ''https://github.com/acme/B.git'' False False,
       repo_object ''https://github.com/acme/C.git'' False True]"
    by (simp add: received_def acme_page_def)
  have d: "distinct (map (\<lambda>repo. py_getitem repo ''clone_url'')
             (received [Get ''https://api.github.com/users/acme/repos'' [] (Inr acme_page)]))"
    by (simp add: rec repo_object_def)
  from lister_output_is_kept_objects
    [of 1 acme_host "''acme''" None None "[]" "[PStr ''https://github.com/acme/B.git'']"
        "[Get ''https://api.github.com/users/acme/repos'' [] (Inr acme_page)]"] run d
  show ?thesis
    by (simp add: rec kept_def flag_def repo_object_def)
qed

text \<open>
  Claim C6. No fork is listed, and with \<^verbatim>\<open>pat_token\<close> \<^verbatim>\<open>None\<close> no private
  repository is (the lemma above). But the two tests for a credential disagree:
  line 41 sends the \<^verbatim>\<open>Authorization\<close> header when the token is truthy, line 50
  skips the private filter when the token is not \<^verbatim>\<open>None\<close>. With the empty
  string for a token, which is what \<^verbatim>\<open>#ENV\<close> gives when \<^verbatim>\<open>GH_TOKEN\<close> is set and
  empty, the request carries no credential and the private repository \<open>C\<close> of
  the listing is in the output.
\<close>

theorem empty_token_lists_private_repositories:
  "load_token empty_token_host (Some ''#ENV'') [] = Inr (Some [])
   \<and> auth_headers (Some []) = []
   \<and> get_public_repos 1 empty_token_host ''acme'' (Some []) None [] =
       Some (Inr [PStr ''https://github.com/acme/B.git'', PStr ''https://github.com/acme/C.git''],
             [Get ''https://api.github.com/users/acme/repos'' [] (Inr acme_page)])
   \<and> flag ''private'' (repo_object ''https://github.com/acme/C.git'' False True)"
  by (simp add: load_token_def empty_token_host_def acme_host_def posix_env_def auth_headers_def
        request_url_def page_repo_urls_def acme_page_def repo_object_def flag_def)

section \<open>Pagination\<close>

lemma select_not_described:
  assumes "\<And>repo d. describes repo d \<Longrightarrow> py_getitem repo k = Inr (PBool (f d))"
  shows "list_all2 describes items ds \<Longrightarrow>
    \<exists>items'. select_not k items = Inr items'
      \<and> list_all2 describes items' (filter (\<lambda>d. \<not> f d) ds)"
proof (induction rule: list_all2_induct)
  case Nil
  show ?case by simp
next
  case (Cons repo items d ds)
  then obtain items' where "select_not k items = Inr items'"
    "list_all2 describes items' (filter (\<lambda>d. \<not> f d) ds)"
    by auto
  with Cons.hyps(1) assms [OF Cons.hyps(1)] show ?case by simp
qed

lemma collect_described:
  "list_all2 describes items ds \<Longrightarrow>
   collect ''clone_url'' items = Inr (map (\<lambda>d. PStr (cloneURL d)) ds)"
  by (induction rule: list_all2_induct) (simp_all add: describes_def)

lemma page_repo_urls_described:
  assumes "page_of response ds"
  shows "page_repo_urls pat_token response = Inr (map PStr (spec_listed pat_token ds))"
proof -
  from assms obtain items where b: "json_body response = Some (PList items)"
    and d: "list_all2 describes items ds"
    by (auto simp: page_of_def split: option.splits pyval.splits)
  from select_not_described [where k = "''fork''" and f = isFork, OF _ d]
  obtain repos where f: "select_not ''fork'' items = Inr repos"
    and df: "list_all2 describes repos (filter (\<lambda>d. \<not> isFork d) ds)"
    by (auto simp: describes_def)
  show ?thesis
  proof (cases pat_token)
    case None
    from select_not_described [where k = "''private''" and f = isPrivate, OF _ df]
    obtain repos' where p: "select_not ''private'' repos = Inr repos'"
      and dp: "list_all2 describes repos'
                 (filter (\<lambda>d. \<not> isPrivate d) (filter (\<lambda>d. \<not> isFork d) ds))"
      by (auto simp: describes_def)
    have "filter (\<lambda>d. \<not> isPrivate d) (filter (\<lambda>d. \<not> isFork d) ds) =
          filter (\<lambda>d. if isFork d then False else \<not> isPrivate d) ds"
      by (auto intro: filter_cong)
    with collect_described [OF dp] b f p None show ?thesis
      by (simp add: page_repo_urls_def spec_listed_def comp_def)
  next
    case (Some tk)
    have "filter (\<lambda>d. \<not> isFork d) ds = filter (\<lambda>d. if isFork d then False else True) ds"
      by (auto intro: filter_cong)
    with collect_described [OF df] b f Some show ?thesis
      by (simp add: page_repo_urls_def spec_listed_def comp_def)
  qed
qed

lemma get_public_repos_walk:
  "serves E (auth_headers pat_token) w (request_url username page_url) pages \<Longrightarrow>
   list_all2 page_of pages dss \<Longrightarrow> length pages \<le> depth \<Longrightarrow>
   \<exists>evs. get_public_repos depth E username pat_token page_url w =
            Some (Inr (map PStr (concat (map (spec_listed pat_token) dss))), w @ evs)
        \<and> list_all is_request evs \<and> length evs = length pages"
proof (induction pages arbitrary: depth w page_url dss)
  case Nil
  then show ?case by simp
next
  case (Cons page pages)
  let ?hs = "auth_headers pat_token" and ?url = "request_url username page_url"
  let ?w1 = "w @ [Get ?url ?hs (Inr page)]"
  from Cons.prems(3) obtain depth' where depth: "depth = Suc depth'" "length pages \<le> depth'"
    by (cases depth) auto
  from Cons.prems(2) obtain ds dss' where dss: "dss = ds # dss'" "page_of page ds"
    "list_all2 page_of pages dss'"
    by (auto simp: list_all2_Cons1)
  have g: "http_get E w ?url ?hs = Inr page" using Cons.prems(1) by simp
  note u = page_repo_urls_described [OF dss(2), of pat_token]
  show ?case
  proof (cases "links page ''next''")
    case None
    with Cons.prems(1) have e: "pages = []" by simp
    with dss have "dss' = []" by simp
    with None g u depth dss(1) e show ?thesis by (simp add: Let_def)
  next
    case (Some next_page_url)
    with Cons.prems(1) have
      s: "serves E ?hs ?w1 (request_url username (Some next_page_url)) pages"
      by (simp add: request_url_def)
    from Cons.IH [OF s dss(3) depth(2)] obtain evs where
      evs: "get_public_repos depth' E username pat_token (Some next_page_url) ?w1 =
              Some (Inr (map PStr (concat (map (spec_listed pat_token) dss'))), ?w1 @ evs)"
        "list_all is_request evs" "length evs = length pages"
      by auto
    have "get_public_repos depth E username pat_token page_url w =
            Some (Inr (map PStr (concat (map (spec_listed pat_token) dss))),
                  w @ Get ?url ?hs (Inr page) # evs)"
      using Some g u depth(1) dss(1) evs(1) by (simp add: Let_def)
    with evs(2,3) show ?thesis by auto
  qed
qed


text \<open>
  Claim C7. When the endpoint serves \<open>N\<close> pages, the first \<open>N - 1\<close> with a
  \<^verbatim>\<open>next\<close> link and the last without, each page a JSON array of repository
  objects, the Lister makes exactly \<open>N\<close> requests and returns the filtered clone
  urls of page 1, then of page 2, and so on to page \<open>N\<close>: the concatenation in
  page order, each page once. The walk nests one call per page, so it needs a
  stack that allows \<open>N\<close> nested calls.
\<close>

theorem pagination_concatenates_pages:
  assumes "serves E (auth_headers pat_token) w (request_url username page_url) pages"
    and "list_all2 page_of pages dss"
    and "length pages \<le> depth"
  shows "\<exists>evs. get_public_repos depth E username pat_token page_url w =
            Some (Inr (map PStr (concat (map (spec_listed pat_token) dss))), w @ evs)
        \<and> list_all is_request evs \<and> length evs = length pages"
  using assms by (rule get_public_repos_walk)

lemma two_pages_served:
  "serves (two_page_host ex) (auth_headers None) []
     (request_url ''acme'' None) [page_one, page_two]"
  by (simp add: two_page_host_def posix_env_def auth_headers_def request_url_def page_one_def
        page_two_def)

lemma two_pages_described:
  "list_all2 page_of [page_one, page_two]
     [[\<lparr>cloneURL = ''https://github.com/acme/A.git'', isFork = True, isPrivate = False\<rparr>,
       \<lparr>cloneURL = ''https://github.com/acme/B.git'', isFork = False, isPrivate = False\<rparr>],
      [\<lparr>cloneURL = ''https://github.com/acme/C.git'', isFork = False, isPrivate = True\<rparr>,
       \<lparr>cloneURL = ''https://github.com/acme/D.git'', isFork = False, isPrivate = False\<rparr>]]"
  by (simp add: page_of_def page_one_def page_two_def describes_def repo_object_def)

theorem pagination_concatenates_pages_witness:
  "serves (two_page_host (\<lambda>p. False)) (auth_headers None) []
     (request_url ''acme'' None) [page_one, page_two]
   \<and> (\<exists>evs. get_public_repos 2 (two_page_host (\<lambda>p. False)) ''acme'' None None [] =
          Some (Inr [PStr ''https://github.com/acme/B.git'',
                     PStr ''https://github.com/acme/D.git''], evs)
        \<and> list_all is_request evs \<and> length evs = 2)"
proof -
  have n: "length [page_one, page_two] \<le> 2" by simp
  have "\<exists>evs. get_public_repos 2 (two_page_host (\<lambda>p. False)) ''acme'' None None [] =
          Some (Inr [PStr ''https://github.com/acme/B.git'',
                     PStr ''https://github.com/acme/D.git''], evs)
        \<and> list_all is_request evs \<and> length evs = 2"
    using pagination_concatenates_pages [OF two_pages_served two_pages_described n, of "\<lambda>p. False"]
    by (simp add: spec_listed_def numeral_2_eq_2)
  with two_pages_served [of "\<lambda>p. False"] show ?thesis by (rule conjI)
qed

section \<open>What each part adds to the trace\<close>

lemma run_git_clone_frame:
  "\<exists>evs. snd (run_git_clone E repo directory repo_name max_retries w) = w @ evs
      \<and> list_all (\<lambda>ev. \<not> is_request ev) evs"
proof (induction E repo directory repo_name max_retries w rule: run_git_clone.induct)
  case (1 E repo directory repo_name max_retries w)
  let ?c = "clone_command E repo directory repo_name"
  show ?case
  proof (cases "max_retries > 0 \<and> shell E w ?c \<noteq> 0")
    case True
    let ?w = "w @ [Run ?c (shell E w ?c)] @
              [Print [Lit ''Error cloning '', Val (PStr repo_name), Lit '': '',
                      Exc (CalledProcessError (shell E w ?c) ?c)], Sleep 5]"
    from True "1.IH" [OF _ refl refl refl] obtain evs where
      "snd (run_git_clone E repo directory repo_name (max_retries - 1) ?w) = ?w @ evs"
      "list_all (\<lambda>ev. \<not> is_request ev) evs"
      by auto
    moreover have "run_git_clone E repo directory repo_name max_retries w =
        run_git_clone E repo directory repo_name (max_retries - 1) ?w"
      using True by (subst run_git_clone.simps) (simp add: Let_def)
    ultimately show ?thesis by auto
  next
    case False
    then show ?thesis by (subst run_git_clone.simps) (auto simp: Let_def)
  qed
qed

lemma clone_repo_frame:
  "\<exists>evs. snd (clone_repo E repo directory w) = w @ evs \<and> list_all (\<lambda>ev. \<not> is_request ev) evs"
proof (cases repo)
  case (PStr u)
  let ?w1 = "w @ [Print [Lit ''Cloning '', Val (PStr u), Lit ''...'']]"
  from run_git_clone_frame [of E u directory "derive_repo_name u" 5 ?w1] obtain evs where
    "snd (run_git_clone E u directory (derive_repo_name u) 5 ?w1) = ?w1 @ evs"
    "list_all (\<lambda>ev. \<not> is_request ev) evs"
    by auto
  with PStr show ?thesis by (auto simp: Let_def split: prod.splits sum.splits)
qed simp_all

lemma submit_all_frame:
  "\<exists>evs. snd (submit_all E repos directory w) = w @ evs \<and> list_all (\<lambda>ev. \<not> is_request ev) evs"
proof (induction repos arbitrary: w)
  case Nil
  show ?case by simp
next
  case (Cons repo repos)
  obtain future w1 where c: "clone_repo E repo directory w = (future, w1)"
    by (cases "clone_repo E repo directory w")
  with clone_repo_frame [of E repo directory w] obtain evs1 where
    e1: "w1 = w @ evs1" "list_all (\<lambda>ev. \<not> is_request ev) evs1"
    by auto
  from Cons.IH [of "w1 @ [Sleep 1]"] obtain evs2 where
    e2: "snd (submit_all E repos directory (w1 @ [Sleep 1])) = (w1 @ [Sleep 1]) @ evs2"
      "list_all (\<lambda>ev. \<not> is_request ev) evs2"
    by auto
  have "snd (submit_all E (repo # repos) directory w) = w @ (evs1 @ Sleep 1 # evs2)"
    using c e1(1) e2(1) by (auto split: prod.splits)
  moreover have "list_all (\<lambda>ev. \<not> is_request ev) (evs1 @ Sleep 1 # evs2)"
    using e1(2) e2(2) by simp
  ultimately show ?case by blast
qed

lemma report_frame:
  "\<exists>evs. report fs w = w @ evs \<and> list_all (\<lambda>ev. \<not> is_request ev) evs"
proof (induction fs w rule: report.induct)
  case (3 exc repo future_to_repo w)
  then obtain evs where
    "report future_to_repo (w @ [Print [Val repo, Lit '' generated an exception: '', Exc exc]]) =
       (w @ [Print [Val repo, Lit '' generated an exception: '', Exc exc]]) @ evs"
    "list_all (\<lambda>ev. \<not> is_request ev) evs"
    by auto
  then have "report ((Inl exc, repo) # future_to_repo) w =
      w @ (Print [Val repo, Lit '' generated an exception: '', Exc exc] # evs)
    \<and> list_all (\<lambda>ev. \<not> is_request ev)
        (Print [Val repo, Lit '' generated an exception: '', Exc exc] # evs)"
    by simp
  then show ?case by blast
qed simp_all

lemma clone_repos_frame:
  "\<exists>evs. snd (clone_repos E repos directory show_progress n_threads w) = w @ evs
      \<and> list_all (\<lambda>ev. \<not> is_request ev) evs"
proof -
  let ?w1 = "w @ [Makedirs directory]"
  obtain fs w2 where s: "submit_all E repos directory ?w1 = (fs, w2)"
    by (cases "submit_all E repos directory ?w1")
  with submit_all_frame [of E repos directory ?w1] obtain evs2 where
    e2: "w2 = ?w1 @ evs2" "list_all (\<lambda>ev. \<not> is_request ev) evs2"
    by auto
  from report_frame [of fs w2] obtain evs3 where
    e3: "report fs w2 = w2 @ evs3" "list_all (\<lambda>ev. \<not> is_request ev) evs3"
    by auto
  have "report fs w2 = w @ (Makedirs directory # evs2 @ evs3)"
    "list_all (\<lambda>ev. \<not> is_request ev) (Makedirs directory # evs2 @ evs3)"
    using e2 e3 by simp_all
  moreover have "w @ [Makedirs directory] = w @ [Makedirs directory] @ []"
    "list_all (\<lambda>ev. \<not> is_request ev) [Makedirs directory]" by simp_all
  ultimately show ?thesis
    using s by (auto simp: clone_repos_def Let_def split: option.splits)
qed


section \<open>Failures of the listing\<close>

lemma answered_is_request: "answered ev \<Longrightarrow> is_request ev"
  by (cases ev rule: answered.cases) simp_all


lemma get_public_repos_frame:
  "get_public_repos depth E username pat_token page_url w = Some (r, w') \<Longrightarrow>
   \<exists>evs ev. w' = w @ evs @ [ev] \<and> list_all answered evs \<and> is_request ev
     \<and> (\<forall>url hs e. ev = Get url hs (Inl e) \<longrightarrow> r = Inl e)"
proof (induction depth arbitrary: page_url w r w')
  case 0
  then show ?case by simp
next
  case (Suc depth)
  let ?hs = "auth_headers pat_token" and ?url = "request_url username page_url"
  show ?case
  proof (cases "http_get E w ?url ?hs")
    case (Inl e)
    with Suc.prems have "r = Inl e" "w' = w @ [] @ [Get ?url ?hs (Inl e)]"
      by (simp_all add: Let_def)
    then show ?thesis by (intro exI conjI) auto
  next
    case (Inr response)
    let ?w1 = "w @ [Get ?url ?hs (Inr response)]"
    show ?thesis
    proof (cases "\<exists>urls next_page_url. page_repo_urls pat_token response = Inr urls
                     \<and> links response ''next'' = Some next_page_url")
      case False
      with Suc.prems Inr have "w' = w @ [] @ [Get ?url ?hs (Inr response)]"
        by (auto simp: Let_def split: sum.splits option.splits)
      then show ?thesis by (intro exI conjI) auto
    next
      case True
      then obtain urls next_page_url where
        u: "page_repo_urls pat_token response = Inr urls"
          "links response ''next'' = Some next_page_url"
        by auto
      with Suc.prems Inr obtain r' where
        rec: "get_public_repos depth E username pat_token (Some next_page_url) ?w1 = Some (r', w')"
        and r: "r = (case r' of Inl e \<Rightarrow> Inl e | Inr rest \<Rightarrow> Inr (urls @ rest))"
        by (auto simp: Let_def split: option.splits sum.splits)
      from Suc.IH [OF rec] obtain evs ev where
        f: "w' = ?w1 @ evs @ [ev]" "list_all answered evs" "is_request ev"
          "\<forall>url hs e. ev = Get url hs (Inl e) \<longrightarrow> r' = Inl e"
        by auto
      have "w' = w @ (Get ?url ?hs (Inr response) # evs) @ [ev]"
        "list_all answered (Get ?url ?hs (Inr response) # evs)"
        using f(1,2) by simp_all
      moreover have "\<forall>url hs e. ev = Get url hs (Inl e) \<longrightarrow> r = Inl e"
        using f(4) r by auto
      ultimately show ?thesis using f(3) by blast
    qed
  qed
qed









section \<open>The listing comes first\<close>

text \<open>
  Claim C10. \<open>main\<close> lists before \<open>clone_repos\<close> looks at the destination:
  when the endpoint serves \<open>N\<close> pages and the destination exists, the run makes
  all \<open>N\<close> requests and only then fails with \<^verbatim>\<open>FileExistsError\<close>, having done
  nothing else. And in every run of \<open>main\<close> that returns, what it did is a
  block of listing requests followed by events that are not requests: no
  directory is made and no clone is attempted before the last listing request.
\<close>

theorem listing_completes_before_destination_check:
  "(load_token E token w = Inr tok
      \<and> serves E (auth_headers tok) w (request_url username None) pages
      \<and> list_all2 page_of pages dss \<and> length pages \<le> depth
      \<and> (\<forall>h. path_exists E h directory) \<longrightarrow>
      (\<exists>evs. main depth E username directory show_progress n_threads token w =
          Some (Inl (FileExistsError [Lit ''Directory '', Val (PStr directory),
                                      Lit '' already exists.'']), w @ evs)
        \<and> list_all is_request evs \<and> length evs = length pages))
   \<and> (main depth E username directory show_progress n_threads token w = Some (r, w') \<longrightarrow>
      (\<exists>requests rest. w' = w @ requests @ rest
        \<and> list_all is_request requests \<and> list_all (\<lambda>ev. \<not> is_request ev) rest))"
proof (intro conjI impI)
  assume a: "load_token E token w = Inr tok
      \<and> serves E (auth_headers tok) w (request_url username None) pages
      \<and> list_all2 page_of pages dss \<and> length pages \<le> depth
      \<and> (\<forall>h. path_exists E h directory)"
  then have "serves E (auth_headers tok) w (request_url username None) pages"
    "list_all2 page_of pages dss" "length pages \<le> depth"
    by simp_all
  from get_public_repos_walk [OF this] obtain evs where
    l: "get_public_repos depth E username tok None w =
          Some (Inr (map PStr (concat (map (spec_listed tok) dss))), w @ evs)"
      "list_all is_request evs" "length evs = length pages"
    by auto
  have "main depth E username directory show_progress n_threads token w =
          Some (Inl (FileExistsError [Lit ''Directory '', Val (PStr directory),
                                      Lit '' already exists.'']), w @ evs)"
    using a l(1) by (simp add: main_def clone_repos_def)
  with l(2,3) show "\<exists>evs. main depth E username directory show_progress n_threads token w =
          Some (Inl (FileExistsError [Lit ''Directory '', Val (PStr directory),
                                      Lit '' already exists.'']), w @ evs)
        \<and> list_all is_request evs \<and> length evs = length pages"
    by blast
next
  assume run: "main depth E username directory show_progress n_threads token w = Some (r, w')"
  show "\<exists>requests rest. w' = w @ requests @ rest
        \<and> list_all is_request requests \<and> list_all (\<lambda>ev. \<not> is_request ev) rest"
  proof (cases "load_token E token w")
    case (Inl e)
    with run have "w' = w @ [] @ []" by (simp add: main_def)
    moreover have "list_all is_request []" "list_all (\<lambda>ev. \<not> is_request ev) []"
      by simp_all
    ultimately show ?thesis by blast
  next
    case (Inr tok')
    with run obtain lr w1 where
      l: "get_public_repos depth E username tok' None w = Some (lr, w1)"
      by (auto simp: main_def split: option.splits)
    from get_public_repos_frame [OF l] obtain evs ev where
      f: "w1 = w @ evs @ [ev]" "list_all answered evs" "is_request ev"
      by auto
    have q: "list_all is_request (evs @ [ev])"
      using f(2,3) by (auto simp: list_all_iff answered_is_request)
    show ?thesis
    proof (cases lr)
      case (Inl e)
      with run Inr l f(1) have "w' = w @ (evs @ [ev]) @ []" by (simp add: main_def)
      moreover have "list_all (\<lambda>ev. \<not> is_request ev) []" by simp
      ultimately show ?thesis using q by blast
    next
      case (Inr repos)
      with run \<open>load_token E token w = Inr tok'\<close> l
      have m: "w' = snd (clone_repos E repos directory show_progress n_threads w1)"
        by (auto simp: main_def)
      from clone_repos_frame [of E repos directory show_progress n_threads w1] m obtain evs2 where
        c: "w' = w1 @ evs2" "list_all (\<lambda>ev. \<not> is_request ev) evs2"
        by auto
      from c(1) f(1) have "w' = w @ (evs @ [ev]) @ evs2" by simp
      with q c(2) show ?thesis by blast
    qed
  qed
qed

theorem listing_completes_before_destination_check_witness:
  "load_token (two_page_host (\<lambda>p. p = ''./repos'')) None [] = Inr None
   \<and> (\<forall>h. path_exists (two_page_host (\<lambda>p. p = ''./repos'')) h ''./repos'')
   \<and> (\<exists>evs. main 2 (two_page_host (\<lambda>p. p = ''./repos'')) ''acme'' ''./repos'' False 5 None [] =
          Some (Inl (FileExistsError [Lit ''Directory '', Val (PStr ''./repos''),
                                      Lit '' already exists.'']), evs)
        \<and> list_all is_request evs \<and> length evs = 2)"
proof -
  have t: "load_token (two_page_host (\<lambda>p. p = ''./repos'')) None [] = Inr None"
    by (simp add: load_token_def)
  have x: "\<forall>h. path_exists (two_page_host (\<lambda>p. p = ''./repos'')) h ''./repos''"
    by (simp add: two_page_host_def posix_env_def)
  have n: "length [page_one, page_two] \<le> 2" by simp
  have "\<exists>evs. main 2 (two_page_host (\<lambda>p. p = ''./repos'')) ''acme'' ''./repos'' False 5 None [] =
          Some (Inl (FileExistsError [Lit ''Directory '', Val (PStr ''./repos''),
                                      Lit '' already exists.'']), evs)
        \<and> list_all is_request evs \<and> length evs = 2"
    using listing_completes_before_destination_check
      [of "two_page_host (\<lambda>p. p = ''./repos'')" None "[]" None "''acme''" "[page_one, page_two]"
        two_page_descriptors 2 "''./repos''" False 5]
      t x n two_pages_served [of "\<lambda>p. p = ''./repos''"] two_pages_described
    by (simp add: numeral_2_eq_2 two_page_descriptors_def del: serves.simps)
  with t x show ?thesis by simp
qed

end
